theory Spec2Isabelle
  imports Main "HOL-Library.AList"
begin

section \<open>Characters and the regular-expression engine\<close>

text \<open>
  A Python \<open>str\<close> is a sequence of code points. The model keeps the code points below 256
  (type \<open>char\<close>, read through \<open>of_char\<close>), which covers ASCII and Latin-1.
  \<open>is_space\<close> is \<open>str.isspace\<close>, which is also what \<open>\s\<close> matches in a \<open>str\<close> pattern, and
  \<open>is_word\<close> is what \<open>\w\<close> matches (alphanumeric or underscore), both on that range.
\<close>

definition is_space :: "char \<Rightarrow> bool" where
  "is_space c \<longleftrightarrow>
     (let n = (of_char c :: nat) in
        (9 \<le> n \<and> n \<le> 13) \<or> (28 \<le> n \<and> n \<le> 32) \<or> n = 133 \<or> n = 160)"

definition is_alnum :: "char \<Rightarrow> bool" where
  "is_alnum c \<longleftrightarrow>
     (let n = (of_char c :: nat) in
        (48 \<le> n \<and> n \<le> 57) \<or> (65 \<le> n \<and> n \<le> 90) \<or> (97 \<le> n \<and> n \<le> 122) \<or>
        n = 170 \<or> n = 178 \<or> n = 179 \<or> n = 181 \<or> n = 185 \<or> n = 186 \<or>
        (188 \<le> n \<and> n \<le> 190) \<or> (192 \<le> n \<and> n \<le> 214) \<or>
        (216 \<le> n \<and> n \<le> 246) \<or> (248 \<le> n \<and> n \<le> 255))"

definition is_word :: "char \<Rightarrow> bool" where
  "is_word c \<longleftrightarrow> is_alnum c \<or> c = CHR ''_''"

text \<open>The class \<open>[^{}]\<close> of the two field patterns and the class \<open>[^"]\<close> of the PDF pattern.\<close>

definition not_brace :: "char \<Rightarrow> bool" where
  "not_brace c \<longleftrightarrow> c \<noteq> CHR ''{'' \<and> c \<noteq> CHR ''}''"

definition not_dquote :: "char \<Rightarrow> bool" where
  "not_dquote c \<longleftrightarrow> c \<noteq> CHR 0x22"

text \<open>
  The patterns of the source are sequences of one-character atoms (a literal or a class),
  each taken once or under one of the greedy quantifiers \<open>?\<close>, \<open>*\<close>, \<open>+\<close>. \<open>rmatch\<close> is
  the backtracking matcher of \<open>re\<close> anchored at the start of its input: a quantified atom first
  takes as many characters as it can and gives them back one at a time when the rest of
  the pattern fails. The result lists, atom by atom, the characters each atom consumed, so
  that a capture group is the concatenation of the pieces of the atoms it brackets.
\<close>

datatype quant = Once | Opt | Star | Plus

type_synonym atom = "(char \<Rightarrow> bool) \<times> quant"
type_synonym regex = "atom list"

definition lit :: "char \<Rightarrow> atom" where
  "lit c = ((\<lambda>x. x = c), Once)"

fun rmatch :: "regex \<Rightarrow> string \<Rightarrow> string list option" where
  "rmatch [] s = Some []"
| "rmatch ((p, Once) # r) [] = None"
| "rmatch ((p, Once) # r) (c # cs) =
     (if p c then map_option ((#) [c]) (rmatch r cs) else None)"
| "rmatch ((p, Opt) # r) [] = map_option ((#) []) (rmatch r [])"
| "rmatch ((p, Opt) # r) (c # cs) =
     (if p c
      then (case rmatch r cs of
              Some ps \<Rightarrow> Some ([c] # ps)
            | None \<Rightarrow> map_option ((#) []) (rmatch r (c # cs)))
      else map_option ((#) []) (rmatch r (c # cs)))"
| "rmatch ((p, Star) # r) [] = map_option ((#) []) (rmatch r [])"
| "rmatch ((p, Star) # r) (c # cs) =
     (if p c
      then (case rmatch ((p, Star) # r) cs of
              Some (x # ps) \<Rightarrow> Some ((c # x) # ps)
            | _ \<Rightarrow> map_option ((#) []) (rmatch r (c # cs)))
      else map_option ((#) []) (rmatch r (c # cs)))"
| "rmatch ((p, Plus) # r) [] = None"
| "rmatch ((p, Plus) # r) (c # cs) =
     (if p c
      then (case rmatch ((p, Star) # r) cs of
              Some (x # ps) \<Rightarrow> Some ((c # x) # ps)
            | _ \<Rightarrow> None)
      else None)"

text \<open>
  What a match can look like: the piece of an atom holds only characters of its class,
  exactly one under no quantifier, at most one under \<open>?\<close>, at least one under \<open>+\<close>.
\<close>

fun conforms :: "atom \<Rightarrow> string \<Rightarrow> bool" where
  "conforms (p, Once) x \<longleftrightarrow> list_all p x \<and> length x = 1"
| "conforms (p, Opt) x \<longleftrightarrow> list_all p x \<and> length x \<le> 1"
| "conforms (p, Star) x \<longleftrightarrow> list_all p x"
| "conforms (p, Plus) x \<longleftrightarrow> list_all p x \<and> x \<noteq> []"

text \<open>\<open>group i n ps\<close>: the text captured by a group that brackets the \<open>n\<close> atoms from index \<open>i\<close>.\<close>

definition group :: "nat \<Rightarrow> nat \<Rightarrow> string list \<Rightarrow> string" where
  "group i n ps = concat (take n (drop i ps))"

text \<open>
  \<open>re_search\<close> tries the start positions from left to right and keeps the first match.
  \<open>re_findall\<close> and \<open>re_sub\<close> scan for successive non-overlapping matches: after a match
  of \<open>n > 0\<close> characters the scan resumes \<open>n\<close> characters later (the counter \<open>k\<close> skips the
  \<open>n - 1\<close> characters after the current one), after an empty match or no match one
  character later.
\<close>

fun re_search :: "regex \<Rightarrow> string \<Rightarrow> string list option" where
  "re_search r [] = rmatch r []"
| "re_search r (c # cs) =
     (case rmatch r (c # cs) of Some ps \<Rightarrow> Some ps | None \<Rightarrow> re_search r cs)"

fun findall_scan :: "regex \<Rightarrow> nat \<Rightarrow> string \<Rightarrow> string list list" where
  "findall_scan r k [] =
     (if k = 0 then (case rmatch r [] of None \<Rightarrow> [] | Some ps \<Rightarrow> [ps]) else [])"
| "findall_scan r k (c # cs) =
     (if 0 < k then findall_scan r (k - 1) cs
      else (case rmatch r (c # cs) of
              None \<Rightarrow> findall_scan r 0 cs
            | Some ps \<Rightarrow> ps # findall_scan r (length (concat ps) - 1) cs))"

definition re_findall :: "regex \<Rightarrow> string \<Rightarrow> string list list" where
  "re_findall r s = findall_scan r 0 s"

fun sub_scan :: "regex \<Rightarrow> string \<Rightarrow> nat \<Rightarrow> string \<Rightarrow> string" where
  "sub_scan r repl k [] =
     (if k = 0 then (case rmatch r [] of None \<Rightarrow> [] | Some ps \<Rightarrow> repl) else [])"
| "sub_scan r repl k (c # cs) =
     (if 0 < k then sub_scan r repl (k - 1) cs
      else (case rmatch r (c # cs) of
              None \<Rightarrow> c # sub_scan r repl 0 cs
            | Some ps \<Rightarrow>
                (if concat ps = [] then repl @ c # sub_scan r repl 0 cs
                 else repl @ sub_scan r repl (length (concat ps) - 1) cs)))"

definition re_sub :: "regex \<Rightarrow> string \<Rightarrow> string \<Rightarrow> string" where
  "re_sub r repl s = sub_scan r repl 0 s"

text \<open>\<open>str.strip()\<close>: leading and trailing whitespace removed.\<close>

definition strip :: "string \<Rightarrow> string" where
  "strip s = rev (dropWhile is_space (rev (dropWhile is_space s)))"


section \<open>The helper functions of the scraper\<close>

text \<open>
  \<open>sanitize_filename\<close>: \<open>re.sub(r'[\\/:*?"<>|]', '_', filename)\<close>. The class holds the nine
  characters backslash, slash, colon, star, question mark, double quote, less-than,
  greater-than, bar.
\<close>

definition forbidden_chars :: "char list" where
  "forbidden_chars =
     [CHR 0x5C, CHR ''/'', CHR '':'', CHR ''*'', CHR ''?'', CHR 0x22, CHR ''<'', CHR ''>'', CHR ''|'']"

definition is_forbidden :: "char \<Rightarrow> bool" where
  "is_forbidden c \<longleftrightarrow> c \<in> set forbidden_chars"

definition sanitize_filename :: "string \<Rightarrow> string" where
  "sanitize_filename filename = re_sub [(is_forbidden, Once)] ''_'' filename"

text \<open>
  \<open>extract_bib_field\<close>: the pattern is \<open>field_name\s*=\s*{([^{}]+)}\<close>, with \<open>field_name\<close>
  spliced into the pattern source unescaped. For a name without regular-expression
  metacharacters that is the sequence of its characters as literals, which is what
  \<open>bib_field_pattern\<close> builds. A name with metacharacters is outside the model: in the
  source it matches as the expression it spells or makes \<open>re.compile\<close> raise, and nothing
  below is stated of such a name (every statement takes a name of word characters). The group
  is the atom \<open>[^{}]+\<close>, at index \<open>length field_name + 4\<close>. \<open>findall\<close> with one group lists
  the group of each match; the function returns the last one stripped, or \<open>None\<close>.
\<close>

definition bib_field_pattern :: "string \<Rightarrow> regex" where
  "bib_field_pattern field_name =
     map lit field_name @
     [(is_space, Star), lit CHR ''='', (is_space, Star), lit CHR ''{'',
      (not_brace, Plus), lit CHR ''}'']"

definition extract_bib_field :: "string \<Rightarrow> string \<Rightarrow> string option" where
  "extract_bib_field bib_text field_name =
     (let matches = map (group (length field_name + 4) 1)
                        (re_findall (bib_field_pattern field_name) bib_text)
      in if matches = [] then None else Some (strip (last matches)))"

text \<open>
  \<open>extract_pdf_url\<close>: the pattern is \<open>url\s*=\s*{(https?://[^"]+\.pdf)}\<close>; the group brackets
  the thirteen atoms from \<open>h\<close> to \<open>f\<close>, which start at index 7. \<open>search\<close> gives the first
  match, and the function returns its group unstripped, or \<open>None\<close>.
\<close>

definition pdf_url_pattern :: regex where
  "pdf_url_pattern =
     map lit ''url'' @
     [(is_space, Star), lit CHR ''='', (is_space, Star), lit CHR ''{''] @
     map lit ''http'' @ [((\<lambda>x. x = CHR ''s''), Opt)] @ map lit ''://'' @
     [(not_dquote, Plus), lit CHR ''.''] @ map lit ''pdf'' @
     [lit CHR ''}'']"

definition extract_pdf_url :: "string \<Rightarrow> string option" where
  "extract_pdf_url bib_text = map_option (group 7 13) (re_search pdf_url_pattern bib_text)"

text \<open>
  \<open>extract_all_bib_fields\<close>: the pattern is \<open>(\w+)\s*=\s*{([^{}]+)}\<close>, the groups are the
  atoms at index 0 and 5. A Python \<open>dict\<close> keeps its keys in insertion order and an
  assignment to a key it already holds replaces the value in place: an association list
  under \<open>AList.update\<close>. The loop assigns the stripped value of every match in turn.
\<close>

type_synonym dict = "(string \<times> string) list"

definition all_fields_pattern :: regex where
  "all_fields_pattern =
     [(is_word, Plus), (is_space, Star), lit CHR ''='', (is_space, Star), lit CHR ''{'',
      (not_brace, Plus), lit CHR ''}'']"

definition extract_all_bib_fields :: "string \<Rightarrow> dict" where
  "extract_all_bib_fields bib_text =
     foldl (\<lambda>fields ps. AList.update (group 0 1 ps) (strip (group 5 1 ps)) fields) []
       (re_findall all_fields_pattern bib_text)"

text \<open>The part \<open>\s*=\s*{([^{}]+)}\<close> that the two field patterns share.\<close>

definition field_tail :: regex where
  "field_tail =
     [(is_space, Star), lit CHR ''='', (is_space, Star), lit CHR ''{'',
      (not_brace, Plus), lit CHR ''}'']"

text \<open>\<open>dict.get(key, default)\<close>.\<close>

definition dict_get :: "dict \<Rightarrow> string \<Rightarrow> string \<Rightarrow> string" where
  "dict_get d k dflt = (case map_of d k of None \<Rightarrow> dflt | Some v \<Rightarrow> v)"


section \<open>Texts of assignments\<close>

text \<open>
  The texts the specification calls well-formed: a sequence of assignments
  \<open>key = {value}\<close>. An assignment is its key, the whitespace on either side of the equals
  sign, its value, and the text that follows its closing brace up to the next key (a
  separator, or what closes the entry). \<open>render pre asgs\<close> is the text that starts with
  \<open>pre\<close> (what opens the entry) and goes on with the assignments in order.
\<close>

record assignment =
  a_key :: string
  a_pad1 :: string
  a_pad2 :: string
  a_value :: string
  a_after :: string

definition render_core :: "assignment \<Rightarrow> string" where
  "render_core a = a_key a @ a_pad1 a @ ''='' @ a_pad2 a @ ''{'' @ a_value a @ ''}''"

definition render :: "string \<Rightarrow> assignment list \<Rightarrow> string" where
  "render pre asgs = pre @ concat (map (\<lambda>a. render_core a @ a_after a) asgs)"

text \<open>
  A key is a non-empty word, the padding is whitespace, and a value holds no brace (it
  may be empty). The text between assignments holds no equals sign and does not end in a
  word character, so that it neither makes an assignment of its own nor runs into the
  next key; it may hold words and braces, as the head \<open>@inproceedings{NIPS_1,\<close> of an
  entry does.
\<close>

definition filler_ok :: "string \<Rightarrow> bool" where
  "filler_ok s \<longleftrightarrow> CHR ''='' \<notin> set s \<and> (s = [] \<or> \<not> is_word (last s))"

definition wf_assignment :: "assignment \<Rightarrow> bool" where
  "wf_assignment a \<longleftrightarrow>
     a_key a \<noteq> [] \<and> list_all is_word (a_key a) \<and>
     list_all is_space (a_pad1 a) \<and> list_all is_space (a_pad2 a) \<and>
     list_all not_brace (a_value a) \<and> filler_ok (a_after a)"

definition well_formed :: "string \<Rightarrow> assignment list \<Rightarrow> bool" where
  "well_formed pre asgs \<longleftrightarrow> filler_ok pre \<and> list_all wf_assignment asgs"

text \<open>
  What the matches on such a text are, atom by atom: \<open>pieces\<close> for the bulk pattern, and
  \<open>name_pieces\<close> for the pattern of a field name, which matches at every assignment with a
  non-empty value whose key ends with the name (\<open>names\<close>).
\<close>

definition pieces :: "assignment \<Rightarrow> string list" where
  "pieces a = [a_key a, a_pad1 a, ''='', a_pad2 a, ''{'', a_value a, ''}'']"

definition name_pieces :: "string \<Rightarrow> assignment \<Rightarrow> string list" where
  "name_pieces n a = map (\<lambda>c. [c]) n @ [a_pad1 a, ''='', a_pad2 a, ''{'', a_value a, ''}'']"




section \<open>The outside world\<close>

text \<open>
  An exception is kept as whether it is an instance of \<open>Exception\<close>, which is what the
  handlers of the source test, and its message \<open>str(e)\<close>. Network, HTTP-client, timeout,
  key and filesystem errors are instances of \<open>Exception\<close>; \<open>asyncio.CancelledError\<close>,
  \<open>KeyboardInterrupt\<close> and \<open>SystemExit\<close> are not.
\<close>

datatype exn = Exn (is_Exception: bool) (message: string)

text \<open>
  What a run does to the outside world is the sequence of the calls it makes, oldest
  first: HTTP requests (URL and headers), \<open>os.makedirs\<close>, opening a file (path and mode),
  writing to it, and printing a line. The text \<open>json.dumps(d, indent=4)\<close> is kept as the
  dictionary it serialises.
\<close>

datatype data = Binary string | Json_dump dict

datatype event =
    Get string "(string \<times> string) list"
  | Makedirs string
  | Open_file string string
  | Write_file string data
  | Print string

type_synonym world = "event list"

text \<open>
  A response of \<open>session.get\<close>: its status code and what \<open>await response.text()\<close> and
  \<open>await response.read()\<close> give, each a body or an exception.
\<close>

record response =
  status :: nat
  text_result :: "exn + string"
  read_result :: "exn + string"

text \<open>
  The libraries and the world behind them are parameters of the model. Every answer may
  depend on what the run has done so far. \<open>http_get\<close> is \<open>session.get\<close> of the session
  that \<open>main\<close> creates with \<open>aiohttp.ClientSession()\<close>: it raises on a connection error or
  a timeout and otherwise yields the response, whatever its status. \<open>soup_select\<close> is
  \<open>BeautifulSoup(html, "html.parser").select(selector)\<close>, giving for each matching tag its
  \<open>href\<close> attribute, if it has one. The three filesystem fields and \<open>print_error\<close> say
  whether the call raises (\<open>print\<close> raises when the line cannot be encoded for the console or
  the output is closed). \<open>path_join\<close> is \<open>os.path.join\<close>.
\<close>

record env =
  http_get :: "world \<Rightarrow> string \<Rightarrow> (string \<times> string) list \<Rightarrow> exn + response"
  soup_select :: "string \<Rightarrow> string \<Rightarrow> string option list"
  makedirs_error :: "world \<Rightarrow> string \<Rightarrow> exn option"
  open_error :: "world \<Rightarrow> string \<Rightarrow> exn option"
  write_error :: "world \<Rightarrow> string \<Rightarrow> exn option"
  print_error :: "world \<Rightarrow> string \<Rightarrow> exn option"
  path_join :: "string \<Rightarrow> string \<Rightarrow> string"

text \<open>
  A coroutine of the source is a function from the world before it to its outcome (the
  exception it raises or the value it returns) and the world after it. Each stage awaits
  its callees one after the other, so sequencing is \<open>bind\<close>.
\<close>

type_synonym 'a io = "world \<Rightarrow> (exn + 'a) \<times> world"

definition return :: "'a \<Rightarrow> 'a io" where
  "return x = (\<lambda>w. (Inr x, w))"

definition raise :: "exn \<Rightarrow> 'a io" where
  "raise e = (\<lambda>w. (Inl e, w))"

definition bind :: "'a io \<Rightarrow> ('a \<Rightarrow> 'b io) \<Rightarrow> 'b io" where
  "bind m f = (\<lambda>w. case m w of (Inl e, w') \<Rightarrow> (Inl e, w') | (Inr x, w') \<Rightarrow> f x w')"

text \<open>\<open>try: body except Exception as e: handler\<close>.\<close>

definition try_except :: "unit io \<Rightarrow> (exn \<Rightarrow> unit io) \<Rightarrow> unit io" where
  "try_except body handler =
     (\<lambda>w. case body w of
            (Inl e, w') \<Rightarrow> if is_Exception e then handler e w' else (Inl e, w')
          | (Inr x, w') \<Rightarrow> (Inr x, w'))"

fun for_each :: "'a list \<Rightarrow> ('a \<Rightarrow> unit io) \<Rightarrow> unit io" where
  "for_each [] f = return ()"
| "for_each (x # xs) f = bind (f x) (\<lambda>_. for_each xs f)"

definition lift_result :: "exn + 'a \<Rightarrow> 'a io" where
  "lift_result r = (\<lambda>w. (r, w))"

definition session_get :: "env \<Rightarrow> string \<Rightarrow> (string \<times> string) list \<Rightarrow> response io" where
  "session_get e url headers = (\<lambda>w. (http_get e w url headers, w @ [Get url headers]))"

definition os_makedirs :: "env \<Rightarrow> string \<Rightarrow> unit io" where
  "os_makedirs e path =
     (\<lambda>w. (case makedirs_error e w path of Some x \<Rightarrow> Inl x | None \<Rightarrow> Inr (),
           w @ [Makedirs path]))"

definition aio_open :: "env \<Rightarrow> string \<Rightarrow> string \<Rightarrow> unit io" where
  "aio_open e path mode =
     (\<lambda>w. (case open_error e w path of Some x \<Rightarrow> Inl x | None \<Rightarrow> Inr (),
           w @ [Open_file path mode]))"

definition file_write :: "env \<Rightarrow> string \<Rightarrow> data \<Rightarrow> unit io" where
  "file_write e path d =
     (\<lambda>w. (case write_error e w path of Some x \<Rightarrow> Inl x | None \<Rightarrow> Inr (),
           w @ [Write_file path d]))"

definition print :: "env \<Rightarrow> string \<Rightarrow> unit io" where
  "print e line =
     (\<lambda>w. (case print_error e w line of Some x \<Rightarrow> Inl x | None \<Rightarrow> Inr (),
           w @ [Print line]))"

text \<open>
  \<open>emits_at w P m\<close>: run from the world \<open>w\<close>, the coroutine \<open>m\<close> only adds calls to the
  world, and every call it adds satisfies \<open>P\<close>.
\<close>

definition emits_at :: "world \<Rightarrow> (event \<Rightarrow> bool) \<Rightarrow> 'a io \<Rightarrow> bool" where
  "emits_at w P m \<longleftrightarrow> (\<exists>evs. snd (m w) = w @ evs \<and> list_all P evs)"

definition startswith :: "string \<Rightarrow> string \<Rightarrow> bool" where
  "startswith s p \<longleftrightarrow> take (length p) s = p"


section \<open>The scraping logic\<close>

definition BASE_URL :: string where
  "BASE_URL = ''https://papers.nips.cc/''"

definition USER_AGENTS :: "string list" where
  "USER_AGENTS =
     [''Mozilla/5.0 (Windows NT 10.0; Win64; x64; rv:90.0) Gecko/20100101 Firefox/90.0'']"

definition fetch_headers :: "(string \<times> string) list" where
  "fetch_headers = [(''User-Agent'', hd USER_AGENTS)]"

text \<open>\<open>fetch\<close>: one GET with the User-Agent header, then the body as text.\<close>

definition fetch :: "env \<Rightarrow> string \<Rightarrow> string io" where
  "fetch e url =
     bind (session_get e url fetch_headers) (\<lambda>response. lift_result (text_result response))"

text \<open>
  \<open>download_pdf\<close>: one GET without headers; the file is opened for writing before the
  body is read, and the body is written to it.
\<close>

definition download_pdf :: "env \<Rightarrow> string \<Rightarrow> string \<Rightarrow> unit io" where
  "download_pdf e url file_path =
     bind (session_get e url []) (\<lambda>response.
     bind (aio_open e file_path ''wb'') (\<lambda>_.
     bind (lift_result (read_result response)) (\<lambda>body.
     file_write e file_path (Binary body))))"

text \<open>
  \<open>process_bib_and_pdf\<close>, as its \<open>try\<close> block and the handler around it; the \<open>print\<close> of
  the handler stands outside the \<open>try\<close>, those of the block inside. The test \<open>if pdf_url:\<close> fails on \<open>None\<close> and on the empty string,
  and has no \<open>else\<close>. \<open>bib_data\<close> is the same dictionary object as \<open>bib_fields\<close>; the
  three names were read from it before \<open>url\<close> is assigned.
\<close>

definition bib_and_pdf_body :: "env \<Rightarrow> string \<Rightarrow> string \<Rightarrow> string \<Rightarrow> unit io" where
  "bib_and_pdf_body e bib_url folder_path folder_name =
        bind (fetch e bib_url) (\<lambda>bib_text.
          case extract_pdf_url bib_text of
            None \<Rightarrow> return ()
          | Some pdf_url \<Rightarrow>
              if pdf_url = [] then return ()
              else
                (let bib_fields = extract_all_bib_fields bib_text;
                     title = dict_get bib_fields ''title'' ''Unknown_Title'';
                     booktitle = dict_get bib_fields ''booktitle'' ''Unknown_Booktitle'';
                     author = dict_get bib_fields ''author'' ''Unknown_Author'';
                     sanitized_title = sanitize_filename title;
                     sanitized_booktitle = sanitize_filename booktitle;
                     sanitized_author = sanitize_filename author;
                     pdf_folder_path = path_join e folder_path ''pdf'';
                     json_folder_path = path_join e folder_path (''json_'' @ folder_name)
                 in
                 bind (os_makedirs e pdf_folder_path) (\<lambda>_.
                 bind (os_makedirs e json_folder_path) (\<lambda>_.
                 let pdf_file_name = sanitized_booktitle @ ''_'' @ sanitized_author @ ''.pdf'';
                     pdf_file_path = path_join e pdf_folder_path pdf_file_name
                 in
                 bind (download_pdf e pdf_url pdf_file_path) (\<lambda>_.
                 bind (print e (''Downloaded PDF: '' @ pdf_file_path)) (\<lambda>_.
                 let bib_data = AList.update ''url'' pdf_url bib_fields;
                     json_file_name = sanitized_title @ ''.json'';
                     json_file_path = path_join e json_folder_path json_file_name
                 in
                 bind (aio_open e json_file_path ''w'') (\<lambda>_.
                 bind (file_write e json_file_path (Json_dump bib_data)) (\<lambda>_.
                 print e (''Saved JSON: '' @ json_file_path)))))))))"

definition process_bib_and_pdf :: "env \<Rightarrow> string \<Rightarrow> string \<Rightarrow> string \<Rightarrow> unit io" where
  "process_bib_and_pdf e bib_url folder_path folder_name =
     try_except (bib_and_pdf_body e bib_url folder_path folder_name)
       (\<lambda>x. print e (''Error processing bib and PDF: '' @ bib_url @ '' | '' @ message x))"

text \<open>
  \<open>process_abstract\<close>. \<open>select_one\<close> is the first tag of \<open>select\<close>, or \<open>None\<close>; a tag is
  always true; \<open>pdf_link["href"]\<close> raises \<open>KeyError('href')\<close> on a tag without that
  attribute.
\<close>

definition KeyError_href :: exn where
  "KeyError_href = Exn True ([CHR 0x27] @ ''href'' @ [CHR 0x27])"

definition abstract_body :: "env \<Rightarrow> string \<Rightarrow> string \<Rightarrow> string \<Rightarrow> unit io" where
  "abstract_body e url folder_path folder_name =
     bind (fetch e url) (\<lambda>html.
       case soup_select e html ''a.btn.btn-light.btn-spacer'' of
         [] \<Rightarrow> return ()
       | pdf_link # _ \<Rightarrow>
           (case pdf_link of
              None \<Rightarrow> raise KeyError_href
            | Some href \<Rightarrow>
                process_bib_and_pdf e (BASE_URL @ href) folder_path folder_name))"

definition process_abstract :: "env \<Rightarrow> string \<Rightarrow> string \<Rightarrow> string \<Rightarrow> unit io" where
  "process_abstract e url folder_path folder_name =
     try_except (abstract_body e url folder_path folder_name)
       (\<lambda>x. print e (''Error processing abstract: '' @ url @ '' | '' @ message x))"

text \<open>\<open>process_href\<close>: the loop over the links runs inside the \<open>try\<close> block.\<close>

definition href_body :: "env \<Rightarrow> string \<Rightarrow> string \<Rightarrow> string \<Rightarrow> unit io" where
  "href_body e url folder_path folder_name =
     bind (fetch e url) (\<lambda>html.
       for_each (soup_select e html ''li > a'') (\<lambda>link.
         case link of
           None \<Rightarrow> raise KeyError_href
         | Some href \<Rightarrow>
             if startswith href ''/paper_files/paper/''
             then process_abstract e (BASE_URL @ href) folder_path folder_name
             else return ()))"

definition process_href :: "env \<Rightarrow> string \<Rightarrow> string \<Rightarrow> string \<Rightarrow> unit io" where
  "process_href e url folder_path folder_name =
     try_except (href_body e url folder_path folder_name)
       (\<lambda>x. print e (''Error processing href: '' @ url @ '' | '' @ message x))"


section \<open>Concrete worlds\<close>

text \<open>
  A world for running the model on concrete inputs: the network answers by URL alone,
  no page has links, the filesystem and the console never fail, and paths are joined with
  a slash.
\<close>

definition example_env :: "(string \<Rightarrow> exn + response) \<Rightarrow> env" where
  "example_env net =
     \<lparr>http_get = (\<lambda>w url headers. net url),
      soup_select = (\<lambda>html selector. []),
      makedirs_error = (\<lambda>w path. None),
      open_error = (\<lambda>w path. None),
      write_error = (\<lambda>w path. None),
      print_error = (\<lambda>w line. None),
      path_join = (\<lambda>a b. a @ ''/'' @ b)\<rparr>"

definition page :: "nat \<Rightarrow> string \<Rightarrow> exn + response" where
  "page code body = Inr \<lparr>status = code, text_result = Inr body, read_result = Inr body\<rparr>"

text \<open>
  A bibliography body whose last \<open>url\<close> field is not the PDF, served at one address; every
  other address serves a four-character body.
\<close>

definition example_bib :: string where
  "example_bib = ''title = {A/B}, author = {X}, url = {http://h/p.pdf}, url = {http://h/q.html}''"

definition example_net :: "string \<Rightarrow> exn + response" where
  "example_net url = (if url = ''http://h/b'' then page 200 example_bib else page 200 ''%PDF'')"

text \<open>Three entries in the syntax above, the last two with empty values.\<close>

definition example_assignments :: "assignment list" where
  "example_assignments =
     [\<lparr>a_key = ''title'', a_pad1 = '' '', a_pad2 = '' '', a_value = '' First '', a_after = '', ''\<rparr>,
      \<lparr>a_key = ''author'', a_pad1 = '''', a_pad2 = '''', a_value = ''A, B'', a_after = '', ''\<rparr>,
      \<lparr>a_key = ''title'', a_pad1 = '' '', a_pad2 = '' '', a_value = ''Second'', a_after = '' }''\<rparr>]"


definition example_empty_pages :: "assignment list" where
  "example_empty_pages =
     [\<lparr>a_key = ''pages'', a_pad1 = '' '', a_pad2 = '' '', a_value = '''', a_after = '', ''\<rparr>,
      \<lparr>a_key = ''title'', a_pad1 = '' '', a_pad2 = '' '', a_value = ''T'', a_after = ''''\<rparr>]"

text \<open>The lines a run printed, and whether a call touches the filesystem.\<close>

fun printed :: "world \<Rightarrow> string list" where
  "printed [] = []"
| "printed (Print line # w) = line # printed w"
| "printed (_ # w) = printed w"

fun is_file_call :: "event \<Rightarrow> bool" where
  "is_file_call (Makedirs _) = True"
| "is_file_call (Open_file _ _) = True"
| "is_file_call (Write_file _ _) = True"
| "is_file_call _ = False"


section \<open>Properties\<close>

subsection \<open>Character classes and the matcher\<close>

lemma word_not_space: "is_word c \<Longrightarrow> \<not> is_space c"
  by (auto simp: is_word_def is_alnum_def is_space_def Let_def)

lemma word_not_special: "is_word c \<Longrightarrow> c \<noteq> CHR ''='' \<and> c \<noteq> CHR ''{'' \<and> c \<noteq> CHR ''}''"
  by (auto simp: is_word_def is_alnum_def Let_def)

lemma space_not_special: "is_space c \<Longrightarrow> c \<noteq> CHR ''='' \<and> c \<noteq> CHR ''{'' \<and> c \<noteq> CHR ''}''"
  by (auto simp: is_space_def Let_def)

lemma sub_scan_class:
  "sub_scan [(p, Once)] repl 0 s = concat (map (\<lambda>c. if p c then repl else [c]) s)"
  by (induction s) auto

lemma sanitize_filename_map:
  "sanitize_filename s = map (\<lambda>c. if is_forbidden c then CHR ''_'' else c) s"
  by (induction s) (auto simp: sanitize_filename_def re_sub_def sub_scan_class)

text \<open>
  Claim C5. For every string, the sanitized name holds none of the nine forbidden
  characters, each forbidden character of the input having been replaced by one
  underscore and every other character kept; and sanitizing twice is sanitizing once.
\<close>

theorem sanitize_filename_safe_idempotent:
  "set (sanitize_filename s) \<inter> set forbidden_chars = {} \<and>
   sanitize_filename s = map (\<lambda>c. if c \<in> set forbidden_chars then CHR ''_'' else c) s \<and>
   sanitize_filename (sanitize_filename s) = sanitize_filename s"
proof -
  have u: "\<not> is_forbidden CHR ''_''"
    by (simp add: is_forbidden_def forbidden_chars_def)
  have a: "set (sanitize_filename s) \<inter> set forbidden_chars = {}"
    using u by (auto simp: sanitize_filename_map is_forbidden_def)
  have b: "sanitize_filename s = map (\<lambda>c. if c \<in> set forbidden_chars then CHR ''_'' else c) s"
    by (simp add: sanitize_filename_map is_forbidden_def)
  have c: "sanitize_filename (sanitize_filename s) = sanitize_filename s"
    using u by (simp add: sanitize_filename_map)
  from a b c show ?thesis by blast
qed

lemma rmatch_star_greedy:
  assumes "\<And>c cs. p c \<Longrightarrow> rmatch r (c # cs) = None"
  shows "rmatch ((p, Star) # r) s = map_option ((#) (takeWhile p s)) (rmatch r (dropWhile p s))"
proof (induction s)
  case Nil
  show ?case by simp
next
  case (Cons c cs)
  show ?case
  proof (cases "p c")
    case True
    with Cons assms show ?thesis
      by (cases "rmatch r (dropWhile p cs)") auto
  next
    case False
    then show ?thesis by simp
  qed
qed

lemma rmatch_plus_greedy:
  assumes "\<And>c cs. p c \<Longrightarrow> rmatch r (c # cs) = None"
  shows "rmatch ((p, Plus) # r) s =
    (if takeWhile p s = [] then None
     else map_option ((#) (takeWhile p s)) (rmatch r (dropWhile p s)))"
proof (cases s)
  case Nil
  then show ?thesis by simp
next
  case (Cons c cs)
  show ?thesis
  proof (cases "p c")
    case True
    then show ?thesis
      unfolding Cons using rmatch_star_greedy[OF assms, where s = cs]
      by (cases "rmatch r (dropWhile p cs)") auto
  next
    case False
    then show ?thesis unfolding Cons by simp
  qed
qed



subsection \<open>What a match looks like\<close>

lemma rmatch_sound:
  "rmatch r s = Some ps \<Longrightarrow> list_all2 conforms r ps \<and> (\<exists>rest. s = concat ps @ rest)"
proof (induction r s arbitrary: ps rule: rmatch.induct)
  case (7 p r c cs)
  show ?case
  proof (cases "p c")
    case True
    show ?thesis
    proof (cases "rmatch ((p, Star) # r) cs")
      case None
      with 7 True show ?thesis by (auto split: if_splits)
    next
      case (Some qs)
      from "7.IH"(1)[OF True Some] have "qs \<noteq> []" by auto
      then obtain x ps' where qs: "qs = x # ps'" by (cases qs) auto
      with 7 True Some show ?thesis by auto
    qed
  next
    case False
    with 7 show ?thesis by auto
  qed
next
  case (9 p r c cs)
  show ?case
  proof (cases "p c")
    case True
    show ?thesis
    proof (cases "rmatch ((p, Star) # r) cs")
      case None
      with 9 True show ?thesis by (auto split: if_splits)
    next
      case (Some qs)
      from "9.IH"[OF True Some] have "qs \<noteq> []" by auto
      then obtain x ps' where qs: "qs = x # ps'" by (cases qs) auto
      with 9 True Some show ?thesis by auto
    qed
  next
    case False
    with 9 show ?thesis by auto
  qed
qed (auto split: if_splits option.splits)

lemma re_search_sound:
  "re_search r s = Some ps \<Longrightarrow> \<exists>t. rmatch r t = Some ps"
  by (induction r s rule: re_search.induct) (auto split: option.splits)

lemma extract_pdf_url_nonempty:
  assumes "extract_pdf_url s = Some u" shows "u \<noteq> []"
proof -
  from assms obtain ps where ps: "re_search pdf_url_pattern s = Some ps" and u: "u = group 7 13 ps"
    by (auto simp: extract_pdf_url_def)
  from re_search_sound[OF ps] obtain t where "rmatch pdf_url_pattern t = Some ps" by blast
  from rmatch_sound[OF this] have "list_all2 conforms pdf_url_pattern ps" by blast
  then show ?thesis
    unfolding u by (auto simp: pdf_url_pattern_def lit_def list_all2_Cons1 group_def)
qed

subsection \<open>Running the coroutines\<close>

lemmas io_defs = bind_def return_def raise_def lift_result_def session_get_def os_makedirs_def
  aio_open_def file_write_def print_def try_except_def

lemmas example_defs = example_env_def page_def

lemma fetch_run:
  "fetch e url w =
     (case http_get e w url fetch_headers of Inl x \<Rightarrow> Inl x | Inr r \<Rightarrow> text_result r,
      w @ [Get url fetch_headers])"
  by (simp add: fetch_def io_defs split: sum.split)

lemma try_except_outcome:
  "try_except body (\<lambda>x. print e (f x)) w =
     (case body w of
        (Inl x, w') \<Rightarrow> if is_Exception x then print e (f x) w' else (Inl x, w')
      | (Inr u, w') \<Rightarrow> (Inr u, w'))"
  by (simp add: try_except_def split: prod.splits sum.splits)

lemma emits_return: "emits_at w P (return x)"
  and emits_raise: "emits_at w P (raise x')"
  and emits_lift: "emits_at w P (lift_result r)"
  by (simp_all add: emits_at_def io_defs)

lemma emits_get: "P (Get url hs) \<Longrightarrow> emits_at w P (session_get e url hs)"
  and emits_makedirs: "P (Makedirs p) \<Longrightarrow> emits_at w P (os_makedirs e p)"
  and emits_open: "P (Open_file p md) \<Longrightarrow> emits_at w P (aio_open e p md)"
  and emits_write: "P (Write_file p d) \<Longrightarrow> emits_at w P (file_write e p d)"
  and emits_print: "P (Print l) \<Longrightarrow> emits_at w P (print e l)"
  by (simp_all add: emits_at_def io_defs)

lemma emits_bind:
  assumes "emits_at w P m" and "\<And>x w'. m w = (Inr x, w') \<Longrightarrow> emits_at w' P (f x)"
  shows "emits_at w P (bind m f)"
proof (cases "m w")
  case (Pair res w')
  from assms(1) Pair obtain evs where w': "w' = w @ evs" and evs: "list_all P evs"
    by (auto simp: emits_at_def)
  show ?thesis
  proof (cases res)
    case (Inl x)
    with Pair w' evs show ?thesis by (auto simp: emits_at_def bind_def)
  next
    case (Inr x)
    with Pair assms(2) have "emits_at w' P (f x)" by simp
    then obtain evs' where "snd (f x w') = w' @ evs'" "list_all P evs'"
      by (auto simp: emits_at_def)
    with Pair Inr w' evs show ?thesis by (auto simp: emits_at_def bind_def)
  qed
qed

lemma emits_try:
  assumes "emits_at w P b" and "\<And>x w'. emits_at w' P (h x)"
  shows "emits_at w P (try_except b h)"
proof (cases "b w")
  case (Pair res w')
  from assms(1) Pair obtain evs where w': "w' = w @ evs" and evs: "list_all P evs"
    by (auto simp: emits_at_def)
  show ?thesis
  proof (cases res)
    case (Inl x)
    from assms(2)[of w' x] obtain evs' where "snd (h x w') = w' @ evs'" "list_all P evs'"
      by (auto simp: emits_at_def)
    with Pair Inl w' evs show ?thesis by (auto simp: emits_at_def try_except_def)
  next
    case (Inr x)
    with Pair w' evs show ?thesis by (auto simp: emits_at_def try_except_def)
  qed
qed

lemma emits_fetch: "P (Get url fetch_headers) \<Longrightarrow> emits_at w P (fetch e url)"
  unfolding fetch_def by (intro emits_bind emits_get emits_lift)

lemma emits_download:
  assumes "P (Get url [])" "P (Open_file p ''wb'')" "\<And>b. P (Write_file p (Binary b))"
  shows "emits_at w P (download_pdf e url p)"
  unfolding download_pdf_def
  by (intro emits_bind emits_get emits_lift emits_open emits_write assms)

lemma emitsD:
  "emits_at w P m \<Longrightarrow> ev \<in> set (drop (length w) (snd (m w))) \<Longrightarrow> P ev"
  by (auto simp: emits_at_def list_all_iff)

lemma example_bib_pdf_url: "extract_pdf_url example_bib = Some ''http://h/p.pdf''"
  by code_simp

lemma example_bib_fields:
  "extract_all_bib_fields example_bib =
     [(''title'', ''A/B''), (''author'', ''X''), (''url'', ''http://h/q.html'')]"
  by code_simp

lemma example_sanitized: "sanitize_filename ''A/B'' = ''A_B''" "sanitize_filename ''X'' = ''X''"
  by (simp_all add: sanitize_filename_map is_forbidden_def forbidden_chars_def)

subsection \<open>The fetcher\<close>

text \<open>
  Claim C2, as the code has it. \<open>fetch\<close> issues exactly one GET, whatever the outcome (no
  retry). An exception of \<open>session.get\<close> (a connection error, a timeout) is raised to the
  caller. A response is never refused for its status: the outcome is what
  \<open>response.text()\<close> gives, a body or an exception.
\<close>

theorem fetch_outcome:
  "(\<forall>x. http_get e w url fetch_headers = Inl x \<longrightarrow> fst (fetch e url w) = Inl x) \<and>
   (\<forall>r. http_get e w url fetch_headers = Inr r \<longrightarrow> fst (fetch e url w) = text_result r) \<and>
   snd (fetch e url w) = w @ [Get url fetch_headers]"
  by (auto simp: fetch_def io_defs split: sum.splits)

theorem fetch_outcome_witness:
  "fst (fetch (example_env (\<lambda>url. Inl (Exn True ''timeout''))) ''http://h/a'' []) = Inl (Exn True ''timeout'') \<and>
   fst (fetch (example_env (\<lambda>url. page 200 ''body'')) ''http://h/a'' []) = Inr ''body'' \<and>
   snd (fetch (example_env (\<lambda>url. page 200 ''body'')) ''http://h/a'' []) = [Get ''http://h/a'' fetch_headers]"
  using fetch_outcome [of "example_env (\<lambda>url. Inl (Exn True ''timeout''))" "[]" "''http://h/a''"]
    fetch_outcome [of "example_env (\<lambda>url. page 200 ''body'')" "[]" "''http://h/a''"]
  by (simp add: example_defs)

text \<open>
  The claim as written fails on a non-2xx status: a response with status 404 is not a
  fetch failure, its body is returned.
\<close>

theorem fetch_non_2xx_counterexample:
  "http_get (example_env (\<lambda>url. page 404 ''Not Found'')) [] ''http://h/missing'' fetch_headers
     = Inr \<lparr>status = 404, text_result = Inr ''Not Found'', read_result = Inr ''Not Found''\<rparr> \<and>
   fst (fetch (example_env (\<lambda>url. page 404 ''Not Found'')) ''http://h/missing'' []) = Inr ''Not Found''"
  by (simp add: fetch_def io_defs example_defs)

subsection \<open>The pipeline stages\<close>

text \<open>
  Claim C1, as the code has it. When the bibliography body is fetched and the PDF-URL
  lookup finds nothing in it, \<open>process_bib_and_pdf\<close> returns normally and the GET of the
  bibliography URL is the only call it made: no directory is created, no file is opened
  or written, and no line is printed.
\<close>

theorem no_pdf_url_is_silent:
  assumes "fst (fetch e bib_url w) = Inr bib_text" and "extract_pdf_url bib_text = None"
  shows "process_bib_and_pdf e bib_url folder_path folder_name w =
           (Inr (), w @ [Get bib_url fetch_headers])"
  using assms
  by (auto simp: process_bib_and_pdf_def bib_and_pdf_body_def fetch_def io_defs split: sum.splits prod.splits)

lemma no_url_in_title_only: "extract_pdf_url ''title = {T}'' = None"
  by code_simp

theorem no_pdf_url_is_silent_witness:
  "process_bib_and_pdf (example_env (\<lambda>url. page 200 ''title = {T}'')) ''http://h/b'' ''d'' ''n'' [] =
     (Inr (), [Get ''http://h/b'' fetch_headers])"
proof -
  have a: "fst (fetch (example_env (\<lambda>url. page 200 ''title = {T}'')) ''http://h/b'' []) = Inr ''title = {T}''"
    by (simp add: fetch_def io_defs example_defs)
  show ?thesis
    using no_pdf_url_is_silent [OF a no_url_in_title_only, of "''d''" "''n''"] by simp
qed

text \<open>
  The claim as written asks for exactly one error line; the run on a body without a PDF
  URL makes no filesystem call, as the claim says, and prints no line.
\<close>

theorem no_pdf_url_log_counterexample:
  "extract_pdf_url ''title = {T}'' = None \<and>
   filter is_file_call (snd (process_bib_and_pdf (example_env (\<lambda>url. page 200 ''title = {T}''))
      ''http://h/b'' ''d'' ''n'' [])) = [] \<and>
   printed (snd (process_bib_and_pdf (example_env (\<lambda>url. page 200 ''title = {T}''))
      ''http://h/b'' ''d'' ''n'' [])) = []"
  by (simp add: no_url_in_title_only process_bib_and_pdf_def bib_and_pdf_body_def fetch_def io_defs example_defs)

text \<open>
  Claim C7, as the code has it. The handler of each stage is \<open>except Exception\<close>, and its
  \<open>print\<close> stands outside the \<open>try\<close>. For each of the three stages: when the \<open>try\<close> block
  returns, so does the stage; an instance of \<open>Exception\<close> raised inside the block is caught
  and one error line with the URL and the message is printed, after which the stage
  returns normally if that \<open>print\<close> succeeds and raises what the \<open>print\<close> raised otherwise;
  an exception that is not an instance of \<open>Exception\<close> is not caught and leaves the stage.
\<close>

theorem stages_catch_Exception:
  "\<forall>(stage, block, label) \<in>
      {(process_href, href_body, ''Error processing href: ''),
       (process_abstract, abstract_body, ''Error processing abstract: ''),
       (process_bib_and_pdf, bib_and_pdf_body, ''Error processing bib and PDF: '')}.
     (\<forall>u w'. block e url fp fn w = (Inr u, w') \<longrightarrow> stage e url fp fn w = (Inr u, w')) \<and>
     (\<forall>x w'. block e url fp fn w = (Inl x, w') \<and> \<not> is_Exception x \<longrightarrow>
        stage e url fp fn w = (Inl x, w')) \<and>
     (\<forall>x w'. block e url fp fn w = (Inl x, w') \<and> is_Exception x \<and>
        print_error e w' (label @ url @ '' | '' @ message x) = None \<longrightarrow>
        stage e url fp fn w = (Inr (), w' @ [Print (label @ url @ '' | '' @ message x)])) \<and>
     (\<forall>x y w'. block e url fp fn w = (Inl x, w') \<and> is_Exception x \<and>
        print_error e w' (label @ url @ '' | '' @ message x) = Some y \<longrightarrow>
        stage e url fp fn w = (Inl y, w' @ [Print (label @ url @ '' | '' @ message x)]))"
proof -
  have one: "(\<forall>u w'. block w = (Inr u, w') \<longrightarrow> try_except block (\<lambda>x. print e (f x)) w = (Inr u, w')) \<and>
     (\<forall>x w'. block w = (Inl x, w') \<and> \<not> is_Exception x \<longrightarrow>
        try_except block (\<lambda>x. print e (f x)) w = (Inl x, w')) \<and>
     (\<forall>x w'. block w = (Inl x, w') \<and> is_Exception x \<and> print_error e w' (f x) = None \<longrightarrow>
        try_except block (\<lambda>x. print e (f x)) w = (Inr (), w' @ [Print (f x)])) \<and>
     (\<forall>x y w'. block w = (Inl x, w') \<and> is_Exception x \<and> print_error e w' (f x) = Some y \<longrightarrow>
        try_except block (\<lambda>x. print e (f x)) w = (Inl y, w' @ [Print (f x)]))"
    for block f
    by (auto simp: try_except_def print_def)
  show ?thesis
    using one [of "href_body e url fp fn" "\<lambda>x. ''Error processing href: '' @ url @ '' | '' @ message x"]
      one [of "abstract_body e url fp fn" "\<lambda>x. ''Error processing abstract: '' @ url @ '' | '' @ message x"]
      one [of "bib_and_pdf_body e url fp fn"
        "\<lambda>x. ''Error processing bib and PDF: '' @ url @ '' | '' @ message x"]
    unfolding process_href_def process_abstract_def process_bib_and_pdf_def
    by simp
qed

theorem stages_catch_Exception_witness:
  "process_bib_and_pdf (example_env (\<lambda>url. Inl (Exn True ''timeout''))) ''http://h/b'' ''d'' ''n'' [] =
     (Inr (),
      [Get ''http://h/b'' fetch_headers,
       Print ''Error processing bib and PDF: http://h/b | timeout''])"
proof -
  let ?e = "example_env (\<lambda>url. Inl (Exn True ''timeout''))"
  have b: "bib_and_pdf_body ?e ''http://h/b'' ''d'' ''n'' [] =
      (Inl (Exn True ''timeout''), [Get ''http://h/b'' fetch_headers])"
    by (simp add: bib_and_pdf_body_def bind_def fetch_run example_defs)
  have p: "print_error ?e w' l = None" for w' l
    by (simp add: example_defs)
  show ?thesis
    using stages_catch_Exception [of ?e "''http://h/b''" "''d''" "''n''" "[]"] b p by simp
qed

text \<open>
  The claim as written says that no exception is ever propagated. A cancellation raised
  by the awaited GET is not an instance of \<open>Exception\<close> and leaves the stage; and when the
  GET times out and the console is closed, the exception of the handler's own \<open>print\<close>,
  an instance of \<open>Exception\<close>, leaves the stage.
\<close>

theorem stage_propagates_counterexample:
  "fst (process_bib_and_pdf (example_env (\<lambda>url. Inl (Exn False ''CancelledError'')))
          ''http://h/b'' ''d'' ''n'' [])
     = Inl (Exn False ''CancelledError'') \<and>
   fst (process_bib_and_pdf
          ((example_env (\<lambda>url. Inl (Exn True ''timeout'')))
             \<lparr>print_error := (\<lambda>w line. Some (Exn True ''BrokenPipeError''))\<rparr>)
          ''http://h/b'' ''d'' ''n'' [])
     = Inl (Exn True ''BrokenPipeError'')"
  by (simp add: process_bib_and_pdf_def bib_and_pdf_body_def fetch_def io_defs example_defs)

subsection \<open>File names and the JSON artifact\<close>

lemma sanitize_placeholders:
  "sanitize_filename ''Unknown_Title'' = ''Unknown_Title''"
  "sanitize_filename ''Unknown_Booktitle'' = ''Unknown_Booktitle''"
  "sanitize_filename ''Unknown_Author'' = ''Unknown_Author''"
  by (simp_all add: sanitize_filename_map is_forbidden_def forbidden_chars_def)

lemma dict_get_sanitized:
  "sanitize_filename dflt = dflt \<Longrightarrow>
   sanitize_filename (dict_get d k dflt) =
     (case map_of d k of None \<Rightarrow> dflt | Some v \<Rightarrow> sanitize_filename v)"
  by (simp add: dict_get_def split: option.splits)

lemma successful_run_trace:
  assumes "http_get e w bib_url fetch_headers = Inr r1"
    and "text_result r1 = Inr bib_text"
    and "extract_pdf_url bib_text = Some pdf_url"
    and "\<forall>w' p. makedirs_error e w' p = None"
    and "\<forall>w'. http_get e w' pdf_url [] = Inr r2"
    and "read_result r2 = Inr body"
    and "\<forall>w' p. open_error e w' p = None"
    and "\<forall>w' p. write_error e w' p = None"
    and "\<forall>w' l. print_error e w' l = None"
  shows
    "let fields = extract_all_bib_fields bib_text;
         B = (case map_of fields ''booktitle'' of
                None \<Rightarrow> ''Unknown_Booktitle'' | Some b \<Rightarrow> sanitize_filename b);
         A = (case map_of fields ''author'' of
                None \<Rightarrow> ''Unknown_Author'' | Some a \<Rightarrow> sanitize_filename a);
         T = (case map_of fields ''title'' of
                None \<Rightarrow> ''Unknown_Title'' | Some t \<Rightarrow> sanitize_filename t);
         pdf_dir = path_join e folder_path ''pdf'';
         json_dir = path_join e folder_path (''json_'' @ folder_name);
         pdf_path = path_join e pdf_dir (B @ ''_'' @ A @ ''.pdf'');
         json_path = path_join e json_dir (T @ ''.json'')
     in process_bib_and_pdf e bib_url folder_path folder_name w =
          (Inr (),
           w @ [Get bib_url fetch_headers, Makedirs pdf_dir, Makedirs json_dir,
                Get pdf_url [], Open_file pdf_path ''wb'', Write_file pdf_path (Binary body),
                Print (''Downloaded PDF: '' @ pdf_path),
                Open_file json_path ''w'',
                Write_file json_path (Json_dump (AList.update ''url'' pdf_url fields)),
                Print (''Saved JSON: '' @ json_path)])"
proof -
  have ne: "pdf_url \<noteq> []" using assms(3) by (rule extract_pdf_url_nonempty)
  show ?thesis
    using assms ne
    by (simp add: process_bib_and_pdf_def bib_and_pdf_body_def fetch_def download_pdf_def io_defs
        Let_def dict_get_sanitized sanitize_placeholders)
qed

lemma example_run:
  "process_bib_and_pdf (example_env example_net) ''http://h/b'' ''d'' ''n'' [] =
     (Inr (),
      [Get ''http://h/b'' fetch_headers, Makedirs ''d/pdf'', Makedirs ''d/json_n'',
       Get ''http://h/p.pdf'' [], Open_file ''d/pdf/Unknown_Booktitle_X.pdf'' ''wb'',
       Write_file ''d/pdf/Unknown_Booktitle_X.pdf'' (Binary ''%PDF''),
       Print ''Downloaded PDF: d/pdf/Unknown_Booktitle_X.pdf'',
       Open_file ''d/json_n/A_B.json'' ''w'',
       Write_file ''d/json_n/A_B.json''
         (Json_dump [(''title'', ''A/B''), (''author'', ''X''), (''url'', ''http://h/p.pdf'')]),
       Print ''Saved JSON: d/json_n/A_B.json''])"
proof -
  let ?e = "example_env example_net"
  have 1: "http_get ?e [] ''http://h/b'' fetch_headers =
      Inr \<lparr>status = 200, text_result = Inr example_bib, read_result = Inr example_bib\<rparr>"
    by (simp add: example_env_def example_net_def page_def)
  have 2: "text_result \<lparr>status = 200, text_result = Inr example_bib, read_result = Inr example_bib\<rparr>
      = Inr example_bib" by simp
  have 4: "\<forall>w' p. makedirs_error ?e w' p = None" by (simp add: example_env_def)
  have 5: "\<forall>w'. http_get ?e w' ''http://h/p.pdf'' [] =
      Inr \<lparr>status = 200, text_result = Inr ''%PDF'', read_result = Inr ''%PDF''\<rparr>"
    by (simp add: example_env_def example_net_def page_def)
  have 6: "read_result \<lparr>status = 200, text_result = Inr ''%PDF'', read_result = Inr ''%PDF''\<rparr>
      = Inr ''%PDF''" by simp
  have 7: "\<forall>w' p. open_error ?e w' p = None" by (simp add: example_env_def)
  have 8: "\<forall>w' p. write_error ?e w' p = None" by (simp add: example_env_def)
  have 9: "\<forall>w' l. print_error ?e w' l = None" by (simp add: example_env_def)
  have pj: "path_join ?e a b = a @ ''/'' @ b" for a b by (simp add: example_env_def)
  show ?thesis
    using successful_run_trace [OF 1 2 example_bib_pdf_url 4 5 6 7 8 9, of "''d''" "''n''"]
    by (simp add: Let_def example_bib_fields example_sanitized pj)
qed

text \<open>
  Claim C6. In a run in which every call succeeds, the PDF is opened and written at
  \<open>pdf/<booktitle>_<author>.pdf\<close> and the JSON at \<open>json_<folder_name>/<title>.json\<close>,
  where each of the three parts is the sanitized field of the extracted mapping, or the
  literal \<open>Unknown_Booktitle\<close>, \<open>Unknown_Author\<close>, \<open>Unknown_Title\<close> when the mapping has no
  such field.
\<close>

theorem file_names_of_a_run:
  assumes "http_get e w bib_url fetch_headers = Inr r1"
    and "text_result r1 = Inr bib_text"
    and "extract_pdf_url bib_text = Some pdf_url"
    and "\<forall>w' p. makedirs_error e w' p = None"
    and "\<forall>w'. http_get e w' pdf_url [] = Inr r2"
    and "read_result r2 = Inr body"
    and "\<forall>w' p. open_error e w' p = None"
    and "\<forall>w' p. write_error e w' p = None"
    and "\<forall>w' l. print_error e w' l = None"
  shows
    "let fields = extract_all_bib_fields bib_text;
         B = (case map_of fields ''booktitle'' of
                None \<Rightarrow> ''Unknown_Booktitle'' | Some b \<Rightarrow> sanitize_filename b);
         A = (case map_of fields ''author'' of
                None \<Rightarrow> ''Unknown_Author'' | Some a \<Rightarrow> sanitize_filename a);
         T = (case map_of fields ''title'' of
                None \<Rightarrow> ''Unknown_Title'' | Some t \<Rightarrow> sanitize_filename t);
         pdf_dir = path_join e folder_path ''pdf'';
         json_dir = path_join e folder_path (''json_'' @ folder_name);
         pdf_path = path_join e pdf_dir (B @ ''_'' @ A @ ''.pdf'');
         json_path = path_join e json_dir (T @ ''.json'')
     in process_bib_and_pdf e bib_url folder_path folder_name w =
          (Inr (),
           w @ [Get bib_url fetch_headers, Makedirs pdf_dir, Makedirs json_dir,
                Get pdf_url [], Open_file pdf_path ''wb'', Write_file pdf_path (Binary body),
                Print (''Downloaded PDF: '' @ pdf_path),
                Open_file json_path ''w'',
                Write_file json_path (Json_dump (AList.update ''url'' pdf_url fields)),
                Print (''Saved JSON: '' @ json_path)])"
  using assms by (rule successful_run_trace)

theorem file_names_of_a_run_witness:
  "process_bib_and_pdf (example_env example_net) ''http://h/b'' ''d'' ''n'' [] =
     (Inr (),
      [Get ''http://h/b'' fetch_headers, Makedirs ''d/pdf'', Makedirs ''d/json_n'',
       Get ''http://h/p.pdf'' [], Open_file ''d/pdf/Unknown_Booktitle_X.pdf'' ''wb'',
       Write_file ''d/pdf/Unknown_Booktitle_X.pdf'' (Binary ''%PDF''),
       Print ''Downloaded PDF: d/pdf/Unknown_Booktitle_X.pdf'',
       Open_file ''d/json_n/A_B.json'' ''w'',
       Write_file ''d/json_n/A_B.json''
         (Json_dump [(''title'', ''A/B''), (''author'', ''X''), (''url'', ''http://h/p.pdf'')]),
       Print ''Saved JSON: d/json_n/A_B.json''])"
proof -
  let ?e = "example_env example_net"
  have 1: "http_get ?e [] ''http://h/b'' fetch_headers =
      Inr \<lparr>status = 200, text_result = Inr example_bib, read_result = Inr example_bib\<rparr>"
    by (simp add: example_env_def example_net_def page_def)
  have 2: "text_result \<lparr>status = 200, text_result = Inr example_bib, read_result = Inr example_bib\<rparr>
      = Inr example_bib" by simp
  have 4: "\<forall>w' p. makedirs_error ?e w' p = None" by (simp add: example_env_def)
  have 5: "\<forall>w'. http_get ?e w' ''http://h/p.pdf'' [] =
      Inr \<lparr>status = 200, text_result = Inr ''%PDF'', read_result = Inr ''%PDF''\<rparr>"
    by (simp add: example_env_def example_net_def page_def)
  have 6: "read_result \<lparr>status = 200, text_result = Inr ''%PDF'', read_result = Inr ''%PDF''\<rparr>
      = Inr ''%PDF''" by simp
  have 7: "\<forall>w' p. open_error ?e w' p = None" by (simp add: example_env_def)
  have 8: "\<forall>w' p. write_error ?e w' p = None" by (simp add: example_env_def)
  have 9: "\<forall>w' l. print_error ?e w' l = None" by (simp add: example_env_def)
  have pj: "path_join ?e a b = a @ ''/'' @ b" for a b by (simp add: example_env_def)
  show ?thesis
    using file_names_of_a_run [OF 1 2 example_bib_pdf_url 4 5 6 7 8 9, of "''d''" "''n''"]
    by (simp add: Let_def example_bib_fields example_sanitized pj)
qed

text \<open>
  Claim C9. Every JSON artifact that a run of \<open>process_bib_and_pdf\<close> writes is the
  extracted field mapping with the key \<open>url\<close> set to the result of \<open>extract_pdf_url\<close> on
  the fetched body, whatever \<open>url\<close> value the bulk extraction had captured.
\<close>

theorem json_url_is_pdf_url:
  assumes "Write_file p (Json_dump d) \<in>
             set (drop (length w) (snd (process_bib_and_pdf e bib_url fp fn w)))"
  shows "\<exists>bib_text pdf_url.
           fst (fetch e bib_url w) = Inr bib_text \<and>
           extract_pdf_url bib_text = Some pdf_url \<and>
           d = AList.update ''url'' pdf_url (extract_all_bib_fields bib_text) \<and>
           map_of d ''url'' = Some pdf_url"
proof -
  define P where "P = (\<lambda>ev. \<forall>p d. ev = Write_file p (Json_dump d) \<longrightarrow>
     (\<exists>bib_text pdf_url.
           fst (fetch e bib_url w) = Inr bib_text \<and>
           extract_pdf_url bib_text = Some pdf_url \<and>
           d = AList.update ''url'' pdf_url (extract_all_bib_fields bib_text)))"
  have plain: "P (Get u hs)" "P (Makedirs q)" "P (Open_file q md)" "P (Print l)"
    "P (Write_file q (Binary b))" for u hs q md l b
    by (simp_all add: P_def)
  have cont: "emits_at w' P
     (case extract_pdf_url bib_text of
            None \<Rightarrow> return ()
          | Some pdf_url \<Rightarrow>
              if pdf_url = [] then return ()
              else
                (let bib_fields = extract_all_bib_fields bib_text;
                     title = dict_get bib_fields ''title'' ''Unknown_Title'';
                     booktitle = dict_get bib_fields ''booktitle'' ''Unknown_Booktitle'';
                     author = dict_get bib_fields ''author'' ''Unknown_Author'';
                     sanitized_title = sanitize_filename title;
                     sanitized_booktitle = sanitize_filename booktitle;
                     sanitized_author = sanitize_filename author;
                     pdf_folder_path = path_join e fp ''pdf'';
                     json_folder_path = path_join e fp (''json_'' @ fn)
                 in
                 bind (os_makedirs e pdf_folder_path) (\<lambda>_.
                 bind (os_makedirs e json_folder_path) (\<lambda>_.
                 let pdf_file_name = sanitized_booktitle @ ''_'' @ sanitized_author @ ''.pdf'';
                     pdf_file_path = path_join e pdf_folder_path pdf_file_name
                 in
                 bind (download_pdf e pdf_url pdf_file_path) (\<lambda>_.
                 bind (print e (''Downloaded PDF: '' @ pdf_file_path)) (\<lambda>_.
                 let bib_data = AList.update ''url'' pdf_url bib_fields;
                     json_file_name = sanitized_title @ ''.json'';
                     json_file_path = path_join e json_folder_path json_file_name
                 in
                 bind (aio_open e json_file_path ''w'') (\<lambda>_.
                 bind (file_write e json_file_path (Json_dump bib_data)) (\<lambda>_.
                 print e (''Saved JSON: '' @ json_file_path)))))))))"
    if f: "fetch e bib_url w = (Inr bib_text, w')" for bib_text w'
  proof (cases "extract_pdf_url bib_text")
    case None
    then show ?thesis by (simp add: emits_return)
  next
    case (Some pdf_url)
    have js: "P (Write_file q (Json_dump (AList.update ''url'' pdf_url (extract_all_bib_fields bib_text))))" for q
      using f Some by (simp add: P_def)
    show ?thesis
      unfolding Some option.case Let_def
      by (auto intro!: emits_bind emits_makedirs emits_download emits_print emits_open
          emits_write emits_return plain js)
  qed
  have "emits_at w P (bib_and_pdf_body e bib_url fp fn)"
    unfolding bib_and_pdf_body_def
    by (rule emits_bind) (auto intro!: emits_fetch plain cont)
  then have "emits_at w P (process_bib_and_pdf e bib_url fp fn)"
    unfolding process_bib_and_pdf_def by (intro emits_try emits_print plain)
  from emitsD [OF this assms] show ?thesis
    by (auto simp: P_def update_conv')
qed

theorem json_url_is_pdf_url_witness:
  "map_of (extract_all_bib_fields example_bib) ''url'' = Some ''http://h/q.html'' \<and>
   (\<exists>bib_text pdf_url.
      fst (fetch (example_env example_net) ''http://h/b'' []) = Inr bib_text \<and>
      extract_pdf_url bib_text = Some pdf_url \<and>
      [(''title'', ''A/B''), (''author'', ''X''), (''url'', ''http://h/p.pdf'')] =
        AList.update ''url'' pdf_url (extract_all_bib_fields bib_text) \<and>
      map_of [(''title'', ''A/B''), (''author'', ''X''), (''url'', ''http://h/p.pdf'')] ''url''
        = Some pdf_url)"
proof -
  have run: "snd (process_bib_and_pdf (example_env example_net) ''http://h/b'' ''d'' ''n'' []) =
      [Get ''http://h/b'' fetch_headers, Makedirs ''d/pdf'', Makedirs ''d/json_n'',
       Get ''http://h/p.pdf'' [], Open_file ''d/pdf/Unknown_Booktitle_X.pdf'' ''wb'',
       Write_file ''d/pdf/Unknown_Booktitle_X.pdf'' (Binary ''%PDF''),
       Print ''Downloaded PDF: d/pdf/Unknown_Booktitle_X.pdf'',
       Open_file ''d/json_n/A_B.json'' ''w'',
       Write_file ''d/json_n/A_B.json''
         (Json_dump [(''title'', ''A/B''), (''author'', ''X''), (''url'', ''http://h/p.pdf'')]),
       Print ''Saved JSON: d/json_n/A_B.json'']"
    by (simp add: example_run)
  have mem: "Write_file ''d/json_n/A_B.json''
         (Json_dump [(''title'', ''A/B''), (''author'', ''X''), (''url'', ''http://h/p.pdf'')])
       \<in> set (drop (length ([]::world))
            (snd (process_bib_and_pdf (example_env example_net) ''http://h/b'' ''d'' ''n'' [])))"
    unfolding run by simp
  show ?thesis
    using json_url_is_pdf_url [OF mem] by (simp add: example_bib_fields)
qed

subsection \<open>The field patterns: what a match is\<close>

lemma all_fields_pattern_tail: "all_fields_pattern = (is_word, Plus) # field_tail"
  by (simp add: all_fields_pattern_def field_tail_def)


lemma run_then:
  assumes "list_all P xs" and "ys = [] \<or> \<not> P (hd ys)"
  shows "takeWhile P (xs @ ys) = xs" and "dropWhile P (xs @ ys) = ys"
  using assms by (induction xs) (cases ys; simp)+

lemma word_not_brace: "is_word c \<Longrightarrow> not_brace c"
  and space_not_brace: "is_space c \<Longrightarrow> not_brace c"
  using word_not_special space_not_special by (auto simp: not_brace_def)

lemma rmatch_field_tail_ok:
  assumes "list_all is_space w1" "list_all is_space w2" "v \<noteq> []" "list_all not_brace v"
  shows "rmatch field_tail (w1 @ ''='' @ w2 @ ''{'' @ v @ ''}'' @ rest) =
           Some [w1, ''='', w2, ''{'', v, ''}'']"
proof -
  let ?r5 = "[lit CHR ''}'']"
  let ?r4 = "(not_brace, Plus) # ?r5"
  let ?r3 = "lit CHR ''{'' # ?r4"
  let ?r2 = "(is_space, Star) # ?r3"
  let ?r1 = "lit CHR ''='' # ?r2"
  have p4: "rmatch ?r5 (c # cs) = None" if "not_brace c" for c cs
    using that by (simp add: lit_def not_brace_def)
  have p2: "rmatch ?r3 (c # cs) = None" if "is_space c" for c cs
    using space_not_special[OF that] by (simp add: lit_def)
  have p0: "rmatch ?r1 (c # cs) = None" if "is_space c" for c cs
    using space_not_special[OF that] by (simp add: lit_def)
  have nb: "\<not> not_brace CHR ''}''" by (simp add: not_brace_def)
  have ns: "\<not> is_space CHR ''=''" "\<not> is_space CHR ''{''" by (simp_all add: is_space_def)
  have 5: "rmatch ?r5 (''}'' @ rest) = Some [''}'']"
    by (simp add: lit_def)
  have 4: "rmatch ?r4 (v @ ''}'' @ rest) = Some [v, ''}'']"
    using run_then[OF assms(4), of "''}'' @ rest"] nb assms(3) 5
    by (simp add: rmatch_plus_greedy[of not_brace ?r5, OF p4])
  have 3: "rmatch ?r3 (''{'' @ v @ ''}'' @ rest) = Some [''{'', v, ''}'']"
    using 4 by (simp add: lit_def [of "CHR ''{''"])
  have 2: "rmatch ?r2 (w2 @ ''{'' @ v @ ''}'' @ rest) = Some [w2, ''{'', v, ''}'']"
    using run_then[OF assms(2), of "''{'' @ v @ ''}'' @ rest"] ns 3
    by (simp add: rmatch_star_greedy[of is_space ?r3, OF p2])
  have 1: "rmatch ?r1 (''='' @ w2 @ ''{'' @ v @ ''}'' @ rest) = Some [''='', w2, ''{'', v, ''}'']"
    using 2 by (simp add: lit_def [of "CHR ''=''"])
  show ?thesis
    unfolding field_tail_def
    using run_then[OF assms(1), of "''='' @ w2 @ ''{'' @ v @ ''}'' @ rest"] ns 1
    by (simp add: rmatch_star_greedy[of is_space ?r1, OF p0])
qed

lemma conforms_lit [simp]: "conforms (lit c) x \<longleftrightarrow> x = [c]"
  by (cases x) (auto simp: lit_def)

lemma rmatch_field_tail_shape:
  assumes "rmatch field_tail s = Some ps"
  shows "\<exists>w1 w2 v rest. ps = [w1, ''='', w2, ''{'', v, ''}''] \<and>
           s = w1 @ ''='' @ w2 @ ''{'' @ v @ ''}'' @ rest \<and>
           list_all is_space w1 \<and> list_all is_space w2 \<and> v \<noteq> [] \<and> list_all not_brace v"
proof -
  from rmatch_sound[OF assms] obtain rest where
    c: "list_all2 conforms field_tail ps" and s: "s = concat ps @ rest" by blast
  from c s show ?thesis
    by (auto simp: field_tail_def list_all2_Cons1)
qed

lemma conforms_literals:
  "list_all2 conforms (map lit n) ps \<Longrightarrow> ps = map (\<lambda>c. [c]) n"
  by (induction n arbitrary: ps) (auto simp: list_all2_Cons1)

lemma concat_singletons [simp]: "concat (map (\<lambda>c. [c]) n) = n"
  by (induction n) auto

subsection \<open>Scanning a text for matches\<close>

lemma findall_scan_skip_failures:
  "(\<And>i. i < length xs \<Longrightarrow> rmatch r (drop i xs @ T) = None) \<Longrightarrow>
   findall_scan r 0 (xs @ T) = findall_scan r 0 T"
proof (induction xs)
  case Nil
  show ?case by simp
next
  case (Cons x xs)
  from Cons.prems[of 0] have 0: "rmatch r (x # xs @ T) = None" by simp
  have "findall_scan r 0 (xs @ T) = findall_scan r 0 T"
  proof (rule Cons.IH)
    fix i assume "i < length xs"
    with Cons.prems[of "Suc i"] show "rmatch r (drop i xs @ T) = None" by simp
  qed
  with 0 show ?case by simp
qed

lemma findall_scan_skip_counter:
  "findall_scan r (length xs) (xs @ T) = findall_scan r 0 T"
  by (induction xs) auto

lemma findall_scan_match:
  assumes "rmatch r (m @ T) = Some ps" and "concat ps = m" and "m \<noteq> []"
  shows "findall_scan r 0 (m @ T) = ps # findall_scan r 0 T"
proof -
  from assms(3) obtain c cs where m: "m = c # cs" by (cases m) auto
  have "findall_scan r (length cs) (cs @ T) = findall_scan r 0 T"
    by (rule findall_scan_skip_counter)
  with assms m show ?thesis by simp
qed

subsection \<open>Where the field patterns cannot match\<close>

lemma rmatch_all_fields_shape:
  assumes "rmatch all_fields_pattern s = Some ps"
  shows "\<exists>k w1 w2 v rest. ps = [k, w1, ''='', w2, ''{'', v, ''}''] \<and>
           s = k @ w1 @ ''='' @ w2 @ ''{'' @ v @ ''}'' @ rest \<and>
           k \<noteq> [] \<and> list_all is_word k \<and>
           list_all is_space w1 \<and> list_all is_space w2 \<and> v \<noteq> [] \<and> list_all not_brace v"
proof -
  from rmatch_sound[OF assms] obtain rest where
    c: "list_all2 conforms all_fields_pattern ps" and s: "s = concat ps @ rest" by blast
  from c s show ?thesis
    by (auto simp: all_fields_pattern_def list_all2_Cons1)
qed


lemma not_special:
  "\<not> is_word CHR ''=''" "\<not> is_word CHR ''{''" "\<not> is_word CHR ''}''"
  "\<not> is_space CHR ''=''" "\<not> is_space CHR ''{''" "\<not> is_space CHR ''}''"
  "not_brace CHR ''=''" "\<not> not_brace CHR ''{''" "\<not> not_brace CHR ''}''"
  using word_not_special space_not_special by (auto simp: not_brace_def)

lemma tail_first_brace:
  assumes "list_all is_space w1" "list_all is_space w2" "v \<noteq> []" "list_all not_brace v"
    and "list_all not_brace k"
  shows "\<exists>c t. dropWhile not_brace (k @ w1 @ ''='' @ w2 @ ''{'' @ v @ ''}'' @ rest) = CHR ''{'' # c # t
           \<and> not_brace c"
proof -
  have "list_all not_brace (k @ w1 @ ''='' @ w2)"
    using assms(1,2,5) by (auto simp: list_all_iff not_special space_not_brace)
  from run_then(2)[OF this, of "''{'' @ v @ ''}'' @ rest"]
  have "dropWhile not_brace (k @ w1 @ ''='' @ w2 @ ''{'' @ v @ ''}'' @ rest) = ''{'' @ v @ ''}'' @ rest"
    by (simp add: not_special)
  with assms(3,4) show ?thesis by (cases v) auto
qed

lemma all_fields_first_brace:
  assumes "rmatch all_fields_pattern s = Some ps"
  shows "\<exists>c t. dropWhile not_brace s = CHR ''{'' # c # t \<and> not_brace c"
proof -
  from rmatch_all_fields_shape[OF assms] obtain k w1 w2 v rest where
    "s = k @ w1 @ ''='' @ w2 @ ''{'' @ v @ ''}'' @ rest" "list_all is_word k"
    "list_all is_space w1" "list_all is_space w2" "v \<noteq> []" "list_all not_brace v" by blast
  then show ?thesis
    using tail_first_brace[of w1 w2 v k rest] by (auto simp: list_all_iff word_not_brace)
qed


lemma all_fields_equals:
  assumes "rmatch all_fields_pattern s = Some ps"
  shows "\<exists>t. dropWhile is_space (dropWhile is_word s) = CHR ''='' # t"
proof -
  from rmatch_all_fields_shape[OF assms] obtain k w1 w2 v rest where
    s: "s = k @ w1 @ ''='' @ w2 @ ''{'' @ v @ ''}'' @ rest" and k: "list_all is_word k"
    and w1: "list_all is_space w1" by blast
  have "w1 @ ''='' @ w2 @ ''{'' @ v @ ''}'' @ rest = [] \<or>
        \<not> is_word (hd (w1 @ ''='' @ w2 @ ''{'' @ v @ ''}'' @ rest))"
    using w1 by (cases w1) (auto simp: not_special dest: word_not_space)
  from run_then(2)[OF k this] s
  have "dropWhile is_word s = w1 @ ''='' @ w2 @ ''{'' @ v @ ''}'' @ rest" by simp
  moreover from run_then(2)[OF w1, of "''='' @ w2 @ ''{'' @ v @ ''}'' @ rest"]
  have "dropWhile is_space (w1 @ ''='' @ w2 @ ''{'' @ v @ ''}'' @ rest) =
      ''='' @ w2 @ ''{'' @ v @ ''}'' @ rest" by (simp add: not_special)
  ultimately show ?thesis by simp
qed


lemma no_equals_ahead:
  assumes "CHR ''='' \<notin> set v" and "T = [] \<or> is_word (hd T)"
  shows "dropWhile is_space (v @ T) \<noteq> CHR ''='' # t"
proof (cases "\<forall>x\<in>set v. is_space x")
  case True
  then have "dropWhile is_space (v @ T) = dropWhile is_space T"
    by (simp add: dropWhile_append2)
  moreover have "dropWhile is_space T \<noteq> CHR ''='' # t"
    using assms(2) by (cases T) (auto simp: not_special dest: word_not_space)
  ultimately show ?thesis by simp
next
  case False
  then obtain x where x: "x \<in> set v" "\<not> is_space x" by blast
  then have d: "dropWhile is_space (v @ T) = dropWhile is_space v @ T"
    by (simp add: dropWhile_append1)
  from x have ne: "dropWhile is_space v \<noteq> []" by (auto simp: dropWhile_eq_Nil_conv)
  then have "hd (dropWhile is_space v) \<in> set v"
    using set_dropWhileD[of _ is_space v] by (metis hd_in_set)
  with assms(1) have "hd (dropWhile is_space v) \<noteq> CHR ''=''" by auto
  with d ne show ?thesis by (cases "dropWhile is_space v") auto
qed

subsection \<open>The bulk pattern on a text of assignments\<close>

lemma render_Nil [simp]: "render pre [] = pre"
  and render_Cons: "render pre (a # asgs) = pre @ render_core a @ render (a_after a) asgs"
  by (simp_all add: render_def)

lemma filler_suffix:
  assumes "filler_ok u" "i < length u"
  shows "drop i u \<noteq> []" "CHR ''='' \<notin> set (drop i u)" "\<not> is_word (last (drop i u))"
  using assms by (auto simp: filler_ok_def dest: in_set_dropD)

lemma all_fields_not_in_filler:
  assumes "filler_ok u" "i < length u" "T = [] \<or> is_word (hd T)"
  shows "rmatch all_fields_pattern (drop i u @ T) = None"
proof (rule ccontr)
  assume "rmatch all_fields_pattern (drop i u @ T) \<noteq> None"
  then obtain ps where "rmatch all_fields_pattern (drop i u @ T) = Some ps" by auto
  from all_fields_equals[OF this] obtain t where
    t: "dropWhile is_space (dropWhile is_word (drop i u @ T)) = CHR ''='' # t" by blast
  let ?u = "drop i u"
  note f = filler_suffix[OF assms(1,2)]
  have "last ?u \<in> set ?u" using f(1) by (rule last_in_set)
  with f(3) have d: "dropWhile is_word (?u @ T) = dropWhile is_word ?u @ T"
    by (simp add: dropWhile_append1)
  have "CHR ''='' \<notin> set (dropWhile is_word ?u)"
    using f(2) set_dropWhileD by fastforce
  from no_equals_ahead[OF this assms(3)] t d show False by simp
qed


lemma field_tail_needs_nonword:
  assumes "is_word c" shows "rmatch field_tail (c # cs) = None"
proof (rule ccontr)
  assume "rmatch field_tail (c # cs) \<noteq> None"
  then obtain ps where "rmatch field_tail (c # cs) = Some ps" by auto
  from rmatch_field_tail_shape[OF this] obtain w1 w2 v rest where
    s: "c # cs = w1 @ ''='' @ w2 @ ''{'' @ v @ ''}'' @ rest" and w1: "list_all is_space w1" by blast
  from s w1 assms show False
    by (cases w1) (auto simp: not_special dest: word_not_space)
qed

lemma all_fields_at_assignment:
  assumes "wf_assignment a" "a_value a \<noteq> []"
  shows "rmatch all_fields_pattern (render_core a @ R) = Some (pieces a)"
proof -
  let ?rest = "a_pad1 a @ ''='' @ a_pad2 a @ ''{'' @ a_value a @ ''}'' @ R"
  from assms(1) have k: "a_key a \<noteq> []" "list_all is_word (a_key a)"
    and w: "list_all is_space (a_pad1 a)" "list_all is_space (a_pad2 a)"
    and v: "list_all not_brace (a_value a)" by (auto simp: wf_assignment_def)
  have nw: "?rest = [] \<or> \<not> is_word (hd ?rest)"
    using w(1) by (cases "a_pad1 a") (auto simp: not_special dest: word_not_space)
  have tail: "rmatch field_tail ?rest = Some [a_pad1 a, ''='', a_pad2 a, ''{'', a_value a, ''}'']"
    using rmatch_field_tail_ok[OF w assms(2) v, of R] by simp
  have "render_core a @ R = a_key a @ ?rest" by (simp add: render_core_def)
  then show ?thesis
    using run_then[OF k(2) nw] k(1) tail
    by (simp add: all_fields_pattern_tail rmatch_plus_greedy[of is_word field_tail,
          OF field_tail_needs_nonword] pieces_def)
qed

lemma concat_pieces [simp]: "concat (pieces a) = render_core a"
  by (simp add: pieces_def render_core_def)

lemma render_core_nonempty [simp]: "render_core a \<noteq> []"
  by (simp add: render_core_def)

lemma empty_value_first_brace:
  assumes "wf_assignment a" "a_value a = []" "i < length (render_core a)"
  shows "\<not> (\<exists>c t. dropWhile not_brace (drop i (render_core a) @ R) = CHR ''{'' # c # t \<and> not_brace c)"
proof -
  define X where "X = a_key a @ a_pad1 a @ ''='' @ a_pad2 a"
  have core: "render_core a = X @ ''{}''" using assms(2) by (simp add: render_core_def X_def)
  have X: "list_all not_brace X"
    using assms(1) unfolding X_def
    by (auto simp: wf_assignment_def list_all_iff not_special word_not_brace space_not_brace)
  show ?thesis
  proof (cases "i \<le> length X")
    case True
    then have d: "drop i (render_core a) @ R = drop i X @ ''{}'' @ R"
      unfolding core by simp
    have "list_all not_brace (drop i X)"
      using X by (auto simp: list_all_iff dest: in_set_dropD)
    from run_then(2)[OF this, of "''{}'' @ R"]
    have "dropWhile not_brace (drop i X @ ''{}'' @ R) = ''{}'' @ R" by (simp add: not_special)
    with d show ?thesis by (simp add: not_special)
  next
    case False
    with assms(3) have "i = Suc (length X)" unfolding core by simp
    then have "drop i (render_core a) @ R = ''}'' @ R" unfolding core by simp
    then show ?thesis by (simp add: not_special)
  qed
qed

lemma all_fields_skip_empty:
  assumes "wf_assignment a" "a_value a = []"
  shows "findall_scan all_fields_pattern 0 (render_core a @ R) = findall_scan all_fields_pattern 0 R"
proof (rule findall_scan_skip_failures)
  fix i assume "i < length (render_core a)"
  note nb = empty_value_first_brace[OF assms this, of R]
  show "rmatch all_fields_pattern (drop i (render_core a) @ R) = None"
  proof (cases "rmatch all_fields_pattern (drop i (render_core a) @ R)")
    case (Some ps)
    from all_fields_first_brace[OF Some] nb show ?thesis by blast
  qed simp
qed

lemma all_fields_skip_filler:
  assumes "filler_ok u" "T = [] \<or> is_word (hd T)"
  shows "findall_scan all_fields_pattern 0 (u @ T) = findall_scan all_fields_pattern 0 T"
  by (rule findall_scan_skip_failures) (rule all_fields_not_in_filler[OF assms(1) _ assms(2)])

lemma all_fields_empty_text: "findall_scan all_fields_pattern 0 [] = []"
  by (simp add: all_fields_pattern_def)

lemma render_tail_starts:
  assumes "wf_assignment a"
  shows "render_core a @ R = [] \<or> is_word (hd (render_core a @ R))"
proof -
  from assms have "a_key a \<noteq> []" "list_all is_word (a_key a)" by (auto simp: wf_assignment_def)
  then show ?thesis by (cases "a_key a") (auto simp: render_core_def)
qed

text \<open>
  On a text of assignments the bulk pattern matches exactly at the assignments with a
  non-empty value, each match being the whole assignment.
\<close>

lemma findall_all_fields_rendered:
  assumes "filler_ok pre" "list_all wf_assignment asgs"
  shows "re_findall all_fields_pattern (render pre asgs) =
           map pieces (filter (\<lambda>a. a_value a \<noteq> []) asgs)"
  using assms
proof (induction asgs arbitrary: pre)
  case Nil
  from all_fields_skip_filler[OF Nil(1), of "[]"]
  have "findall_scan all_fields_pattern 0 pre = findall_scan all_fields_pattern 0 []" by simp
  then show ?case
    by (simp only: re_findall_def render_Nil all_fields_empty_text list.map filter.simps)
next
  case (Cons a asgs)
  from Cons.prems have wf: "wf_assignment a" and rest: "list_all wf_assignment asgs"
    by simp_all
  from wf have fa: "filler_ok (a_after a)" by (simp add: wf_assignment_def)
  let ?R = "render (a_after a) asgs"
  have IH: "findall_scan all_fields_pattern 0 ?R = map pieces (filter (\<lambda>a. a_value a \<noteq> []) asgs)"
    using Cons.IH[OF fa rest] by (simp add: re_findall_def)
  have 1: "findall_scan all_fields_pattern 0 (render pre (a # asgs)) =
      findall_scan all_fields_pattern 0 (render_core a @ ?R)"
    unfolding render_Cons
    by (rule all_fields_skip_filler[OF Cons.prems(1) render_tail_starts[OF wf]])
  show ?case
  proof (cases "a_value a = []")
    case True
    with 1 all_fields_skip_empty[OF wf True, of ?R] IH show ?thesis
      by (simp add: re_findall_def)
  next
    case False
    from findall_scan_match[OF all_fields_at_assignment[OF wf False, of ?R]] 
    have "findall_scan all_fields_pattern 0 (render_core a @ ?R) =
        pieces a # findall_scan all_fields_pattern 0 ?R" by simp
    with 1 IH False show ?thesis by (simp add: re_findall_def)
  qed
qed

lemma group_pieces [simp]:
  "group 0 1 (pieces a) = a_key a" "group 5 1 (pieces a) = a_value a"
  "group 0 (Suc 0) (pieces a) = a_key a" "group 5 (Suc 0) (pieces a) = a_value a"
  by (simp_all add: group_def pieces_def)

lemma map_of_foldl_update:
  "map_of (foldl (\<lambda>d x. AList.update (f x) (g x) d) d0 xs) =
     map_of d0 ++ map_of (rev (map (\<lambda>x. (f x, g x)) xs))"
proof (induction xs arbitrary: d0)
  case Nil
  show ?case by simp
next
  case (Cons x xs)
  show ?case
    by (simp add: Cons.IH update_conv' map_of_append)
       (auto simp: map_add_def fun_eq_iff split: option.splits)
qed

lemma distinct_foldl_update:
  "distinct (map fst d0) \<Longrightarrow>
   distinct (map fst (foldl (\<lambda>d x. AList.update (f x) (g x) d) d0 xs))"
  by (induction xs arbitrary: d0) (simp_all add: distinct_update)

lemma map_of_find:
  "map_of (map (\<lambda>x. (f x, g x)) xs) k = map_option g (find (\<lambda>x. f x = k) xs)"
  by (induction xs) auto

lemma extract_all_bib_fields_fold:
  assumes "well_formed pre asgs"
  shows "extract_all_bib_fields (render pre asgs) =
     foldl (\<lambda>d a. AList.update (a_key a) (strip (a_value a)) d) []
       (filter (\<lambda>a. a_value a \<noteq> []) asgs)"
proof -
  from assms have "re_findall all_fields_pattern (render pre asgs) =
      map pieces (filter (\<lambda>a. a_value a \<noteq> []) asgs)"
    by (simp add: well_formed_def findall_all_fields_rendered)
  then show ?thesis
    by (simp add: extract_all_bib_fields_def foldl_map)
qed

subsection \<open>The pattern of a field name on a text of assignments\<close>










lemma concat_name_pieces [simp]:
  "concat (name_pieces n a) = n @ a_pad1 a @ ''='' @ a_pad2 a @ ''{'' @ a_value a @ ''}''"
  by (simp add: name_pieces_def)





lemma group_name_pieces [simp]:
  "group (length n + 4) 1 (name_pieces n a) = a_value a"
  "group (length n + 4) (Suc 0) (name_pieces n a) = a_value a"
  by (simp_all add: group_def name_pieces_def)

lemma find_rev_last_filter:
  "find P (rev xs) = (if filter P xs = [] then None else Some (last (filter P xs)))"
  by (induction xs rule: rev_induct) auto


subsection \<open>Empty values\<close>



lemma find_rev_filter_conj:
  "find P (rev (filter Q xs)) = find (\<lambda>x. P x \<and> Q x) (rev xs)"
  by (simp add: find_rev_last_filter conj_commute)

lemma example_render:
  "render ''@inproceedings{NIPS_1, '' example_assignments =
     ''@inproceedings{NIPS_1, title = { First }, author={A, B}, title = {Second} }''"
  by (simp add: render_def render_core_def example_assignments_def)

lemma example_well_formed: "well_formed ''@inproceedings{NIPS_1, '' example_assignments"
  by (simp add: well_formed_def wf_assignment_def filler_ok_def example_assignments_def
      is_word_def is_alnum_def is_space_def not_brace_def)

lemma example_empty_pages_render:
  "render [] example_empty_pages = ''pages = {}, title = {T}''"
  by (simp add: render_def render_core_def example_empty_pages_def)

text \<open>
  Claim C4, as the code has it. For every well-formed text of assignments \<open>key = {value}\<close>,
  keys possibly repeated, \<open>extract_all_bib_fields\<close> returns a dictionary whose keys are
  exactly the keys declared with a non-empty value, each once, and whose value at a key is
  the stripped value of the last assignment to that key with a non-empty value. An
  assignment \<open>key = {}\<close> declares its key and adds nothing, because the pattern asks for at
  least one character between the braces.
\<close>

theorem extract_all_bib_fields_well_formed:
  assumes "well_formed pre asgs"
  shows "fst ` set (extract_all_bib_fields (render pre asgs)) =
           a_key ` set (filter (\<lambda>a. a_value a \<noteq> []) asgs) \<and>
         distinct (map fst (extract_all_bib_fields (render pre asgs))) \<and>
         map_of (extract_all_bib_fields (render pre asgs)) k =
           map_option (\<lambda>a. strip (a_value a))
             (find (\<lambda>a. a_key a = k \<and> a_value a \<noteq> []) (rev asgs))"
proof -
  let ?ne = "\<lambda>a. a_value a \<noteq> []"
  note e = extract_all_bib_fields_fold[OF assms]
  have m: "map_of (extract_all_bib_fields (render pre asgs)) =
      map_of (map (\<lambda>a. (a_key a, strip (a_value a))) (rev (filter ?ne asgs)))"
    unfolding e map_of_foldl_update by (simp add: rev_map)
  have "dom (map_of (extract_all_bib_fields (render pre asgs))) = a_key ` set (filter ?ne asgs)"
    unfolding m by (simp add: dom_map_of_conv_image_fst image_image)
  then have 1: "fst ` set (extract_all_bib_fields (render pre asgs)) =
      a_key ` set (filter ?ne asgs)"
    by (simp add: dom_map_of_conv_image_fst)
  have 2: "distinct (map fst (extract_all_bib_fields (render pre asgs)))"
    unfolding e by (rule distinct_foldl_update) simp
  have 3: "map_of (extract_all_bib_fields (render pre asgs)) k =
           map_option (\<lambda>a. strip (a_value a)) (find (\<lambda>a. a_key a = k \<and> ?ne a) (rev asgs))"
    unfolding m map_of_find find_rev_filter_conj ..
  from 1 2 3 show ?thesis by blast
qed

theorem extract_all_bib_fields_well_formed_witness:
  "well_formed ''@inproceedings{NIPS_1, '' example_assignments \<and>
   fst ` set (extract_all_bib_fields
      ''@inproceedings{NIPS_1, title = { First }, author={A, B}, title = {Second} }'')
     = {''title'', ''author''} \<and>
   map_of (extract_all_bib_fields
      ''@inproceedings{NIPS_1, title = { First }, author={A, B}, title = {Second} }'') ''title''
     = Some ''Second''"
proof -
  note t = extract_all_bib_fields_well_formed[OF example_well_formed, of "''title''",
      unfolded example_render]
  have k: "a_key ` set (filter (\<lambda>a. a_value a \<noteq> []) example_assignments) =
      {''title'', ''author''}"
    by (auto simp: example_assignments_def)
  have f: "map_option (\<lambda>a. strip (a_value a))
      (find (\<lambda>a. a_key a = ''title'' \<and> a_value a \<noteq> []) (rev example_assignments)) =
      Some ''Second''"
    by (simp add: example_assignments_def strip_def is_space_def)
  from t[THEN conjunct1] k t[THEN conjunct2, THEN conjunct2] f example_well_formed
  show ?thesis by simp
qed

text \<open>
  The claim as written says the key set is exactly the set of declared keys: the text
  \<open>pages = {}, title = {T}\<close> is well-formed and declares \<open>pages\<close> and \<open>title\<close>, and the
  result has \<open>title\<close> alone.
\<close>

theorem declared_key_without_value_counterexample:
  "well_formed [] example_empty_pages \<and>
   render [] example_empty_pages = ''pages = {}, title = {T}'' \<and>
   a_key ` set example_empty_pages = {''pages'', ''title''} \<and>
   extract_all_bib_fields ''pages = {}, title = {T}'' = [(''title'', ''T'')]"
proof -
  have 1: "well_formed [] example_empty_pages"
    by (simp add: well_formed_def wf_assignment_def filler_ok_def example_empty_pages_def
        is_word_def is_alnum_def is_space_def not_brace_def)
  have 2: "a_key ` set example_empty_pages = {''pages'', ''title''}"
    by (simp add: example_empty_pages_def)
  have 3: "extract_all_bib_fields ''pages = {}, title = {T}'' = [(''title'', ''T'')]"
    by code_simp
  from 1 2 3 example_empty_pages_render show ?thesis by simp
qed







subsection \<open>Two defects of the patterns\<close>

text \<open>
  Claim C3 does not hold of the code. The class \<open>[^"]+\<close> of the PDF pattern takes braces
  too, and being greedy it runs to the last \<open>.pdf}\<close> of the text: with a later field that
  ends in \<open>.pdf\<close> the lookup returns text that goes past the closing brace of the \<open>url\<close>
  field, and the same two fields in the other order give the URL alone.
\<close>

theorem extract_pdf_url_runs_past_the_brace:
  "extract_pdf_url ''url = {http://x/y.pdf}, file = {z.pdf}'' =
     Some ''http://x/y.pdf}, file = {z.pdf'' \<and>
   extract_pdf_url ''file = {z.pdf}, url = {http://x/y.pdf}'' = Some ''http://x/y.pdf''"
  by code_simp

text \<open>
  Claim C8 does not hold of the code. The pattern of \<open>extract_bib_field\<close> does not ask
  for the start of a word before the field name, so it also matches inside a longer key:
  the lookup of \<open>title\<close> in a text that only has a \<open>booktitle\<close> is not absent, and after a
  \<open>title\<close> a later \<open>booktitle\<close> wins.
\<close>

theorem extract_bib_field_matches_inside_a_key:
  "extract_bib_field ''booktitle = {B}'' ''title'' = Some ''B'' \<and>
   extract_bib_field ''title = {T}, booktitle = {B}'' ''title'' = Some ''B''"
  by code_simp

end
